theory Spec2Isabelle
  imports Complex_Main
begin

section \<open>Values exchanged with the remote API\<close>

text \<open>
  The bodies that \<^verbatim>\<open>response.json()\<close> returns are Python values built from JSON:
  \<^verbatim>\<open>None\<close>, booleans, integers, strings, lists and dictionaries with string keys.
  (JSON numbers with a fraction are outside this model.)
\<close>

datatype json =
    JNull
  | JBool bool
  | JNum int
  | JStr string
  | JArr "json list"
  | JObj "(string \<times> json) list"

text \<open>Python truth value of such a value, as tested by \<^verbatim>\<open>if x:\<close> and \<^verbatim>\<open>if not x:\<close>.\<close>

fun truthy :: "json \<Rightarrow> bool" where
  "truthy JNull = False"
| "truthy (JBool b) = b"
| "truthy (JNum n) = (n \<noteq> 0)"
| "truthy (JStr s) = (s \<noteq> [])"
| "truthy (JArr xs) = (xs \<noteq> [])"
| "truthy (JObj kvs) = (kvs \<noteq> [])"

text \<open>The exceptions of the Python run time that the code can let escape.\<close>

datatype exn = ValueError | AttributeError | TypeError | KeyError | JSONDecodeError

text \<open>
  A \<^verbatim>\<open>requests.Response\<close>: the status code, the headers (looked up by their canonical
  spelling) and the decoded body (\<open>None\<close> when the body is not JSON, in which case
  \<^verbatim>\<open>response.json()\<close> raises).
\<close>

record response =
  status_code :: int
  headers :: "(string \<times> string) list"
  body :: "json option"

text \<open>
  The truth value of a response object. The \<^verbatim>\<open>requests\<close> library defines
  \<^verbatim>\<open>Response.__bool__\<close> as \<^verbatim>\<open>self.ok\<close>, which is false exactly for the client and server
  error statuses 400 to 599. Every \<^verbatim>\<open>if response\<close> and \<^verbatim>\<open>if not response\<close> of the source
  goes through it.
\<close>

definition response_truthy :: "response \<Rightarrow> bool" where
  "response_truthy r = (\<not> (400 \<le> status_code r \<and> status_code r < 600))"

text \<open>
  What one call of \<^verbatim>\<open>session.get\<close> does: it returns a response or raises. The two network
  exceptions are the ones \<^verbatim>\<open>make_request\<close> retries; every other
  \<^verbatim>\<open>RequestException\<close> is the third kind.
\<close>

datatype outcome = Returned response | ReadTimeout | ConnectionError | OtherRequestException

type_synonym params = "(string \<times> json) list option"

text \<open>The remote side: the outcome of the \<open>n\<close>-th call of \<^verbatim>\<open>session.get\<close>, given its arguments.\<close>

type_synonym server = "nat \<Rightarrow> string \<Rightarrow> params \<Rightarrow> outcome"

section \<open>The fetcher's state\<close>

text \<open>
  The mutable attribute \<^verbatim>\<open>self.retry_delay\<close>, the immutable \<^verbatim>\<open>self.username\<close>, and the
  world around the object: the clock read by \<^verbatim>\<open>time.time()\<close>, the number of calls of
  \<^verbatim>\<open>session.get\<close> made so far, the durations passed to \<^verbatim>\<open>time.sleep\<close> in order, and the
  requests sent in order.
\<close>

record state =
  username :: string
  retry_delay :: int
  clock :: real
  calls :: nat
  slept :: "real list"
  sent :: "(string \<times> params) list"

definition base_url :: string where
  "base_url = ''https://api.github.com''"

definition max_retries :: nat where
  "max_retries = 3"

definition api_call_delay :: real where
  "api_call_delay = 1 / 2"


text \<open>The state right after \<^verbatim>\<open>__init__\<close>, at time \<open>t\<close>.\<close>

definition init :: "string \<Rightarrow> real \<Rightarrow> state" where
  "init user t = \<lparr>username = user, retry_delay = 2, clock = t, calls = 0, slept = [], sent = []\<rparr>"

text \<open>\<^verbatim>\<open>time.sleep(d)\<close> raises \<^verbatim>\<open>ValueError\<close> for a negative duration.\<close>

definition sleep :: "real \<Rightarrow> state \<Rightarrow> (exn + unit) \<times> state" where
  "sleep d s =
     (if d < 0 then (Inl ValueError, s)
      else (Inr (), s\<lparr>clock := clock s + d, slept := slept s @ [d]\<rparr>))"

definition session_get :: "server \<Rightarrow> string \<Rightarrow> params \<Rightarrow> state \<Rightarrow> outcome \<times> state" where
  "session_get env url ps s =
     (env (calls s) url ps, s\<lparr>calls := Suc (calls s), sent := sent s @ [(url, ps)]\<rparr>)"

section \<open>Reading integers from header values\<close>

text \<open>
  Python's \<^verbatim>\<open>int(text)\<close> on a string: surrounding white space is stripped, then an
  optional sign, then decimal digits, single underscores allowed between digits. Anything
  else raises \<^verbatim>\<open>ValueError\<close> (here \<open>None\<close>).
\<close>

definition py_space :: "char \<Rightarrow> bool" where
  "py_space c = (c \<in> set [CHR '' '', CHR 0x09, CHR 0x0A, CHR 0x0B, CHR 0x0C, CHR 0x0D])"

definition strip :: "string \<Rightarrow> string" where
  "strip s = dropWhile py_space (rev (dropWhile py_space (rev s)))"

definition is_digit :: "char \<Rightarrow> bool" where
  "is_digit c = (c \<in> set ''0123456789'')"

definition digit_val :: "char \<Rightarrow> int" where
  "digit_val c = int (of_char c) - 48"

fun parse_digits :: "int \<Rightarrow> string \<Rightarrow> int option" where
  "parse_digits acc [] = Some acc"
| "parse_digits acc (c # cs) =
     (if is_digit c then parse_digits (10 * acc + digit_val c) cs
      else if c = CHR ''_'' then
        (case cs of
           [] \<Rightarrow> None
         | d # ds \<Rightarrow> if is_digit d then parse_digits (10 * acc + digit_val d) ds else None)
      else None)"

definition parse_unsigned :: "string \<Rightarrow> int option" where
  "parse_unsigned t =
     (case t of
        [] \<Rightarrow> None
      | d # ds \<Rightarrow> if is_digit d then parse_digits (digit_val d) ds else None)"

definition py_int :: "string \<Rightarrow> int option" where
  "py_int text =
     (case strip text of
        [] \<Rightarrow> None
      | c # cs \<Rightarrow>
          if c = CHR ''-'' then map_option uminus (parse_unsigned cs)
          else if c = CHR ''+'' then parse_unsigned cs
          else parse_unsigned (c # cs))"

section \<open>Transport: \<^verbatim>\<open>check_rate_limit\<close> and \<^verbatim>\<open>make_request\<close>\<close>

definition check_rate_limit :: "response \<Rightarrow> state \<Rightarrow> (exn + unit) \<times> state" where
  "check_rate_limit r s =
     (if \<not> response_truthy r then (Inr (), s)
      else
        let remaining = map_of (headers r) ''X-RateLimit-Remaining'';
            reset_time = map_of (headers r) ''X-RateLimit-Reset''
        in case remaining of
             None \<Rightarrow> (Inr (), s)
           | Some rem \<Rightarrow>
               if rem = [] then (Inr (), s)
               else (case py_int rem of
                       None \<Rightarrow> (Inl ValueError, s)
                     | Some n \<Rightarrow>
                         if n < 50 then
                           (case reset_time of
                              None \<Rightarrow> sleep 60 s
                            | Some rt \<Rightarrow>
                                if rt = [] then sleep 60 s
                                else (case py_int rt of
                                        None \<Rightarrow> (Inl ValueError, s)
                                      | Some reset_timestamp \<Rightarrow>
                                          sleep (max (of_int reset_timestamp - clock s) 0 + 5) s))
                         else (Inr (), s)))"

text \<open>\<^verbatim>\<open>int(response.headers.get('Retry-After', 60))\<close>\<close>

definition retry_after :: "response \<Rightarrow> exn + int" where
  "retry_after r =
     (case map_of (headers r) ''Retry-After'' of
        None \<Rightarrow> Inr 60
      | Some v \<Rightarrow> (case py_int v of None \<Rightarrow> Inl ValueError | Some n \<Rightarrow> Inr n))"

text \<open>
  The body of \<^verbatim>\<open>for attempt in range(self.max_retries)\<close>, from iteration \<open>attempt\<close> on.
  \<^verbatim>\<open>continue\<close> goes to the next value of \<open>attempt\<close>; falling out of the loop returns
  \<^verbatim>\<open>None\<close>. An exception that no \<^verbatim>\<open>except\<close> clause names leaves the function.
\<close>

function attempts :: "server \<Rightarrow> string \<Rightarrow> params \<Rightarrow> nat \<Rightarrow> state \<Rightarrow> (exn + response option) \<times> state" where
  "attempts env url ps attempt s =
     (if \<not> attempt < max_retries then (Inr None, s)
      else
        (case session_get env url ps s of
           (Returned r, s1) \<Rightarrow>
             if status_code r = 429 then
               (case retry_after r of
                  Inl e \<Rightarrow> (Inl e, s1)
                | Inr d \<Rightarrow>
                    (case sleep (of_int d) s1 of
                       (Inl e, s2) \<Rightarrow> (Inl e, s2)
                     | (Inr _, s2) \<Rightarrow> attempts env url ps (Suc attempt) s2))
             else
               (case check_rate_limit r s1 of
                  (Inl e, s2) \<Rightarrow> (Inl e, s2)
                | (Inr _, s2) \<Rightarrow> (Inr (Some r), s2\<lparr>retry_delay := 2\<rparr>))
         | (OtherRequestException, s1) \<Rightarrow> (Inr None, s1)
         | (_, s1) \<Rightarrow>
             if attempt < max_retries - 1 then
               (case sleep (of_int (retry_delay s1)) s1 of
                  (Inl e, s2) \<Rightarrow> (Inl e, s2)
                | (Inr _, s2) \<Rightarrow>
                    attempts env url ps (Suc attempt) (s2\<lparr>retry_delay := retry_delay s2 * 2\<rparr>))
             else (Inr None, s1)))"
  by pat_completeness auto
termination
  by (relation "measure (\<lambda>(env, url, ps, attempt, s). max_retries - attempt)") auto

declare attempts.simps [simp del]

definition make_request :: "server \<Rightarrow> string \<Rightarrow> params \<Rightarrow> state \<Rightarrow> (exn + response option) \<times> state" where
  "make_request env url ps s = attempts env url ps 0 s"

section \<open>The four metric fetchers\<close>

text \<open>\<^verbatim>\<open>response.json()\<close>: the decoded body, or an exception when the body is not JSON.\<close>

definition response_json :: "response \<Rightarrow> exn + json" where
  "response_json r = (case body r of None \<Rightarrow> Inl JSONDecodeError | Some j \<Rightarrow> Inr j)"

definition repo_url :: "state \<Rightarrow> string \<Rightarrow> string \<Rightarrow> string" where
  "repo_url s repo_name suffix =
     base_url @ ''/repos/'' @ username s @ ''/'' @ repo_name @ ''/traffic/'' @ suffix"

text \<open>
  A fetcher returns the decoded body, or Python's \<^verbatim>\<open>None\<close> (here \<open>JNull\<close>).
  \<^verbatim>\<open>get_repo_views\<close> reads the status of a failed response only under \<^verbatim>\<open>elif response\<close>;
  the other three read \<^verbatim>\<open>response.status_code\<close> with no such test, which raises
  \<^verbatim>\<open>AttributeError\<close> when \<^verbatim>\<open>make_request\<close> has returned \<^verbatim>\<open>None\<close>.
\<close>

definition get_repo_views :: "server \<Rightarrow> string \<Rightarrow> state \<Rightarrow> (exn + json) \<times> state" where
  "get_repo_views env repo_name s =
     (case make_request env (repo_url s repo_name ''views'') None s of
        (Inl e, s1) \<Rightarrow> (Inl e, s1)
      | (Inr None, s1) \<Rightarrow> (Inr JNull, s1)
      | (Inr (Some r), s1) \<Rightarrow>
          if response_truthy r \<and> status_code r = 200 then (response_json r, s1)
          else (Inr JNull, s1))"

definition get_repo_clones :: "server \<Rightarrow> string \<Rightarrow> state \<Rightarrow> (exn + json) \<times> state" where
  "get_repo_clones env repo_name s =
     (case make_request env (repo_url s repo_name ''clones'') None s of
        (Inl e, s1) \<Rightarrow> (Inl e, s1)
      | (Inr None, s1) \<Rightarrow> (Inl AttributeError, s1)
      | (Inr (Some r), s1) \<Rightarrow>
          if response_truthy r \<and> status_code r = 200 then (response_json r, s1)
          else (Inr JNull, s1))"

definition get_repo_referrers :: "server \<Rightarrow> string \<Rightarrow> state \<Rightarrow> (exn + json) \<times> state" where
  "get_repo_referrers env repo_name s =
     (case make_request env (repo_url s repo_name ''popular/referrers'') None s of
        (Inl e, s1) \<Rightarrow> (Inl e, s1)
      | (Inr None, s1) \<Rightarrow> (Inl AttributeError, s1)
      | (Inr (Some r), s1) \<Rightarrow>
          if response_truthy r \<and> status_code r = 200 then (response_json r, s1)
          else (Inr JNull, s1))"

definition get_popular_paths :: "server \<Rightarrow> string \<Rightarrow> state \<Rightarrow> (exn + json) \<times> state" where
  "get_popular_paths env repo_name s =
     (case make_request env (repo_url s repo_name ''popular/paths'') None s of
        (Inl e, s1) \<Rightarrow> (Inl e, s1)
      | (Inr None, s1) \<Rightarrow> (Inl AttributeError, s1)
      | (Inr (Some r), s1) \<Rightarrow>
          if response_truthy r \<and> status_code r = 200 then (response_json r, s1)
          else (Inr JNull, s1))"

section \<open>Collector: \<^verbatim>\<open>get_repo_traffic_data\<close>\<close>

text \<open>Sequencing of two steps, the second skipped when the first raises.\<close>

definition and_then ::
  "(exn + 'a) \<times> state \<Rightarrow> ('a \<Rightarrow> state \<Rightarrow> (exn + 'b) \<times> state) \<Rightarrow> (exn + 'b) \<times> state" where
  "and_then m f = (case m of (Inl e, s) \<Rightarrow> (Inl e, s) | (Inr v, s) \<Rightarrow> f v s)"

text \<open>The dictionary \<^verbatim>\<open>traffic_data\<close>, with its keys in insertion order.\<close>

definition get_repo_traffic_data ::
  "server \<Rightarrow> string \<Rightarrow> state \<Rightarrow> (exn + (string \<times> json) list) \<times> state" where
  "get_repo_traffic_data env repo_name s =
     and_then (get_repo_views env repo_name s) (\<lambda>views s1.
     and_then (sleep api_call_delay s1) (\<lambda>_ s2.
     and_then (get_repo_clones env repo_name s2) (\<lambda>clones s3.
     and_then (sleep api_call_delay s3) (\<lambda>_ s4.
     and_then (get_repo_referrers env repo_name s4) (\<lambda>referrers s5.
     and_then (sleep api_call_delay s5) (\<lambda>_ s6.
     and_then (get_popular_paths env repo_name s6) (\<lambda>popular_paths s7.
       (Inr [(''views'', views), (''clones'', clones), (''referrers'', referrers),
             (''popular_paths'', popular_paths)], s7))))))))"

section \<open>Paginator: \<^verbatim>\<open>get_user_repos\<close>\<close>

definition repos_url :: string where
  "repos_url = base_url @ ''/user/repos''"

text \<open>The dictionary \<^verbatim>\<open>params\<close> once \<^verbatim>\<open>params['page'] = page\<close> has run.\<close>

definition page_params :: "int \<Rightarrow> params" where
  "page_params page = Some [(''per_page'', JNum 100), (''type'', JStr ''owner''), (''page'', JNum page)]"

text \<open>
  What \<^verbatim>\<open>repos.extend(page_repos)\<close> appends: the elements of a list, the keys of a
  dictionary, the characters of a string; a number or a boolean is not iterable.
\<close>

fun py_iter :: "json \<Rightarrow> exn + json list" where
  "py_iter (JArr xs) = Inr xs"
| "py_iter (JObj kvs) = Inr (map (\<lambda>kv. JStr (fst kv)) kvs)"
| "py_iter (JStr cs) = Inr (map (\<lambda>c. JStr [c]) cs)"
| "py_iter _ = Inl TypeError"

text \<open>
  The \<^verbatim>\<open>while True\<close> loop, entered with the current \<^verbatim>\<open>page\<close> and \<^verbatim>\<open>repos\<close>. It has no
  bound of its own: against a server that never sends an empty page it does not return,
  which is the value \<open>None\<close> here.
\<close>

partial_function (option) pages ::
  "server \<Rightarrow> int \<Rightarrow> json list \<Rightarrow> state \<Rightarrow> ((exn + json list) \<times> state) option" where
  "pages env page repos s =
     (case make_request env repos_url (page_params page) s of
        (Inl e, s1) \<Rightarrow> Some (Inl e, s1)
      | (Inr None, s1) \<Rightarrow> Some (Inr repos, s1)
      | (Inr (Some r), s1) \<Rightarrow>
          if status_code r \<noteq> 200 then Some (Inr repos, s1)
          else
            (case response_json r of
               Inl e \<Rightarrow> Some (Inl e, s1)
             | Inr page_repos \<Rightarrow>
                 if \<not> truthy page_repos then Some (Inr repos, s1)
                 else
                   (case py_iter page_repos of
                      Inl e \<Rightarrow> Some (Inl e, s1)
                    | Inr items \<Rightarrow>
                        (case sleep (1 / 2) s1 of
                           (Inl e, s2) \<Rightarrow> Some (Inl e, s2)
                         | (Inr _, s2) \<Rightarrow> pages env (page + 1) (repos @ items) s2))))"

declare pages.simps [code]

definition get_user_repos :: "server \<Rightarrow> state \<Rightarrow> ((exn + json list) \<times> state) option" where
  "get_user_repos env s = pages env 1 [] s"

section \<open>Aggregator: \<^verbatim>\<open>get_all_traffic_data\<close>\<close>


definition then_value :: "exn + 'a \<Rightarrow> ('a \<Rightarrow> exn + 'b) \<Rightarrow> exn + 'b" where
  "then_value m f = (case m of Inl e \<Rightarrow> Inl e | Inr v \<Rightarrow> f v)"







type_synonym traffic_record = "(string \<times> json) list"

type_synonym report = "(json \<times> traffic_record) list"






section \<open>Summary: \<^verbatim>\<open>print_summary\<close>\<close>

text \<open>\<^verbatim>\<open>d.get(key, 0)\<close> on a value \<open>d\<close>; only a dictionary has the method.\<close>

definition get_or_zero :: "json \<Rightarrow> string \<Rightarrow> exn + json" where
  "get_or_zero d key =
     (case d of
        JObj kvs \<Rightarrow> (case map_of kvs key of None \<Rightarrow> Inr (JNum 0) | Some v \<Rightarrow> Inr v)
      | _ \<Rightarrow> Inl AttributeError)"

text \<open>\<^verbatim>\<open>total += v\<close> for an integer total: a boolean counts as 0 or 1, anything but a number
  raises \<^verbatim>\<open>TypeError\<close>.\<close>

definition py_add :: "int \<Rightarrow> json \<Rightarrow> exn + int" where
  "py_add acc v =
     (case v of
        JNum n \<Rightarrow> Inr (acc + n)
      | JBool b \<Rightarrow> Inr (acc + (if b then 1 else 0))
      | _ \<Rightarrow> Inl TypeError)"

text \<open>\<^verbatim>\<open>data.get(key)\<close> on a record: \<^verbatim>\<open>None\<close> for a missing key.\<close>

definition record_get :: "traffic_record \<Rightarrow> string \<Rightarrow> json" where
  "record_get data key = (case map_of data key of None \<Rightarrow> JNull | Some v \<Rightarrow> v)"

text \<open>One pass of the loop body: the three running totals after the record \<open>data\<close>.\<close>

definition summary_step :: "traffic_record \<Rightarrow> int \<times> int \<times> int \<Rightarrow> exn + int \<times> int \<times> int" where
  "summary_step data totals =
     (case totals of (total_views, total_unique_views, total_clones) \<Rightarrow>
        let views_data = record_get data ''views'';
            clones_data = record_get data ''clones''
        in then_value
             (if truthy views_data then
                then_value (get_or_zero views_data ''count'') (\<lambda>repo_views.
                then_value (get_or_zero views_data ''uniques'') (\<lambda>repo_unique_views.
                then_value (py_add total_views repo_views) (\<lambda>tv.
                then_value (py_add total_unique_views repo_unique_views) (\<lambda>tu.
                  Inr (tv, tu)))))
              else Inr (total_views, total_unique_views))
             (\<lambda>(tv, tu).
                if truthy clones_data then
                  then_value (get_or_zero clones_data ''count'') (\<lambda>repo_clones.
                  then_value (py_add total_clones repo_clones) (\<lambda>tc.
                    Inr (tv, tu, tc)))
                else Inr (tv, tu, total_clones)))"

fun summary_loop :: "report \<Rightarrow> int \<times> int \<times> int \<Rightarrow> exn + int \<times> int \<times> int" where
  "summary_loop [] totals = Inr totals"
| "summary_loop ((repo_name, data) # rest) totals =
     (case summary_step data totals of
        Inl e \<Rightarrow> Inl e
      | Inr totals' \<Rightarrow> summary_loop rest totals')"

text \<open>The three totals that \<^verbatim>\<open>print_summary\<close> prints last: views, unique visitors, clones.\<close>

definition print_summary :: "report \<Rightarrow> exn + int \<times> int \<times> int" where
  "print_summary all_traffic_data = summary_loop all_traffic_data (0, 0, 0)"

section \<open>Scenarios\<close>

text \<open>Concrete servers and inputs, used where a statement is evaluated.\<close>

definition reply :: "int \<Rightarrow> (string \<times> string) list \<Rightarrow> json \<Rightarrow> response" where
  "reply code hs j = \<lparr>status_code = code, headers = hs, body = Some j\<rparr>"

text \<open>Five answers 429 with no \<^verbatim>\<open>Retry-After\<close> header, then 200 for good.\<close>

definition throttled_five_times :: server where
  "throttled_five_times n url ps =
     (if n < 5 then Returned (reply 429 [] JNull) else Returned (reply 200 [] (JArr [])))"

text \<open>The clones endpoint of repository \<open>a\<close> cannot be reached; every other request succeeds.\<close>

definition clones_unreachable :: server where
  "clones_unreachable n url ps =
     (if url = ''https://api.github.com/repos/LiteObject/a/traffic/clones'' then ConnectionError
      else Returned (reply 200 [] (JObj [(''count'', JNum 10), (''uniques'', JNum 4)])))"

text \<open>A 429 whose \<^verbatim>\<open>Retry-After\<close> is an HTTP date, and a 200 whose remaining count is no number.\<close>

definition retry_after_date :: server where
  "retry_after_date n url ps =
     Returned (reply 429 [(''Retry-After'', ''Wed, 21 Oct 2015 07:28:00 GMT'')] JNull)"

definition remaining_garbled :: server where
  "remaining_garbled n url ps =
     Returned (reply 200 [(''X-RateLimit-Remaining'', ''n/a'')] (JArr []))"

text \<open>A server that cannot be reached; one that comes back at the fifth request; one that
  fails once.\<close>

definition always_down :: server where
  "always_down n url ps = ConnectionError"

definition down_four_times :: server where
  "down_four_times n url ps =
     (if n < 4 then ConnectionError else Returned (reply 200 [] (JArr [])))"

definition down_once :: server where
  "down_once n url ps =
     (if n < 1 then ReadTimeout else Returned (reply 200 [] (JArr [])))"



text \<open>Every fifth request times out; the others are answered by endpoint: the views and
  the referrers with data, the clones with 403 and the popular paths with 404.\<close>

definition flaky :: server where
  "flaky n url ps =
     (if n mod 5 = 0 then ReadTimeout
      else if url = ''https://api.github.com/repos/LiteObject/a/traffic/views''
        then Returned (reply 200 [] (JObj [(''count'', JNum 10), (''uniques'', JNum 4)]))
      else if url = ''https://api.github.com/repos/LiteObject/a/traffic/clones''
        then Returned (reply 403 [] (JObj [(''message'', JStr ''Forbidden'')]))
      else if url = ''https://api.github.com/repos/LiteObject/a/traffic/popular/referrers''
        then Returned (reply 200 [] (JArr []))
      else Returned (reply 404 [] (JObj [(''message'', JStr ''Not Found'')])))"

section \<open>Relations between two runs\<close>

text \<open>
  \<open>replays u env' t env s\<close>: from state \<open>t\<close> on the server \<open>env'\<close> gives the outcomes that
  \<open>env\<close> gives from state \<open>s\<close> on, call after call; both fetchers belong to user \<open>u\<close> and
  hold a backoff delay that is not negative. Two runs \<open>agree\<close> when they produce the same
  result (value or exception) and end in states that are related again.
\<close>

definition replays :: "string \<Rightarrow> server \<Rightarrow> state \<Rightarrow> server \<Rightarrow> state \<Rightarrow> bool" where
  "replays u env' t env s =
     (username t = u \<and> username s = u \<and> 0 \<le> retry_delay s \<and> 0 \<le> retry_delay t
      \<and> (\<forall>i. env' (calls t + i) = env (calls s + i)))"

definition agree ::
  "string \<Rightarrow> server \<Rightarrow> server \<Rightarrow> (exn + 'a) \<times> state \<Rightarrow> (exn + 'a) \<times> state \<Rightarrow> bool" where
  "agree u env' env m m' = (fst m' = fst m \<and> replays u env' (snd m') env (snd m))"

section \<open>The summary in the words of the specification\<close>

text \<open>
  A metric of a record is present when it is not absent (\<^verbatim>\<open>None\<close> or missing). The total
  of a field is the sum of that field over the records in which the metric is present; a
  metric without the field counts as zero.
\<close>

definition metric_present :: "traffic_record \<Rightarrow> string \<Rightarrow> bool" where
  "metric_present data metric = (record_get data metric \<noteq> JNull)"

definition metric_number :: "traffic_record \<Rightarrow> string \<Rightarrow> string \<Rightarrow> int" where
  "metric_number data metric field =
     (case record_get data metric of
        JObj kvs \<Rightarrow> (case map_of kvs field of Some (JNum n) \<Rightarrow> n | _ \<Rightarrow> 0)
      | _ \<Rightarrow> 0)"

definition total_over_present :: "report \<Rightarrow> string \<Rightarrow> string \<Rightarrow> int" where
  "total_over_present all_traffic_data metric field =
     sum_list (map (\<lambda>data. metric_number data metric field)
                   (filter (\<lambda>data. metric_present data metric) (map snd all_traffic_data)))"

text \<open>
  The reports the summary is meant for: in every record, \<open>views\<close> and \<open>clones\<close> are absent
  (missing or \<^verbatim>\<open>None\<close>) or a dictionary whose \<open>count\<close> and \<open>uniques\<close>, where it has them, are
  integers, as the API sends them.
\<close>

definition number_or_missing :: "(string \<times> json) list \<Rightarrow> string \<Rightarrow> bool" where
  "number_or_missing kvs field =
     (case map_of kvs field of None \<Rightarrow> True | Some (JNum n) \<Rightarrow> True | Some _ \<Rightarrow> False)"

definition well_typed_metric :: "json \<Rightarrow> bool" where
  "well_typed_metric m =
     (case m of
        JNull \<Rightarrow> True
      | JObj kvs \<Rightarrow> number_or_missing kvs ''count'' \<and> number_or_missing kvs ''uniques''
      | _ \<Rightarrow> False)"

definition well_typed_report :: "report \<Rightarrow> bool" where
  "well_typed_report all_traffic_data =
     list_all (\<lambda>entry. well_typed_metric (record_get (snd entry) ''views'')
                      \<and> well_typed_metric (record_get (snd entry) ''clones'')) all_traffic_data"

text \<open>The report of the end-to-end scenario: repository \<open>a\<close> with every metric, repository
  \<open>b\<close> with its views absent.\<close>

definition report_ab :: report where
  "report_ab =
     [(JStr ''a'',
       [(''repository_info'', JObj [(''name'', JStr ''a'')]),
        (''views'', JObj [(''count'', JNum 10), (''uniques'', JNum 3), (''views'', JArr [])]),
        (''clones'', JObj [(''count'', JNum 2), (''uniques'', JNum 1), (''clones'', JArr [])]),
        (''referrers'', JArr []),
        (''popular_paths'', JArr [])]),
      (JStr ''b'',
       [(''repository_info'', JObj [(''name'', JStr ''b'')]),
        (''views'', JNull),
        (''clones'', JObj [(''count'', JNum 5), (''uniques'', JNum 2), (''clones'', JArr [])]),
        (''referrers'', JArr []),
        (''popular_paths'', JArr [])])]"

text \<open>
  A server for the repository listing: it answers the request for page \<open>k\<close> with the
  \<open>k\<close>-th of the given pages, and every other request with the outcome \<open>final\<close>.
\<close>

definition page_of :: "params \<Rightarrow> int option" where
  "page_of ps =
     (case ps of
        None \<Rightarrow> None
      | Some kvs \<Rightarrow> (case map_of kvs ''page'' of Some (JNum k) \<Rightarrow> Some k | _ \<Rightarrow> None))"

definition paged :: "json list list \<Rightarrow> outcome \<Rightarrow> server" where
  "paged pgs final n url ps =
     (case page_of ps of
        None \<Rightarrow> final
      | Some k \<Rightarrow>
          if 1 \<le> k \<and> k \<le> int (length pgs) then Returned (reply 200 [] (JArr (pgs ! nat (k - 1))))
          else final)"

text \<open>
  The outcomes that end the enumeration: a page that comes back empty, a status other than
  200, a failure of the request. (The response carries no rate limit headers.)
\<close>

definition stops :: "outcome \<Rightarrow> bool" where
  "stops out =
     (case out of
        Returned r \<Rightarrow>
          headers r = [] \<and>
          (if status_code r = 200 then (case body r of None \<Rightarrow> False | Some j \<Rightarrow> \<not> truthy j)
           else True)
      | _ \<Rightarrow> True)"

definition three_pages :: "json list list" where
  "three_pages =
     [[JObj [(''name'', JStr ''a'')], JObj [(''name'', JStr ''b'')]],
      [JObj [(''name'', JStr ''c'')]],
      [JObj [(''name'', JStr ''d'')], JObj [(''name'', JStr ''e'')]]]"

section \<open>The shape of a report entry\<close>





section \<open>Transport\<close>

text \<open>
  Claim C1 says that a run of 429 answers is waited out without using up retries, so that
  five 429 answers followed by a success give five waits and the success. In the code
  \<^verbatim>\<open>continue\<close> moves the \<^verbatim>\<open>for\<close> loop to its next attempt: against five 429 answers
  followed by a success, \<^verbatim>\<open>make_request\<close> waits 60 seconds three times, sends three
  requests and returns \<^verbatim>\<open>None\<close>.
\<close>

theorem make_request_429_uses_up_attempts:
  "fst (make_request throttled_five_times repos_url (page_params 1) (init ''LiteObject'' 0)) = Inr None
   \<and> slept (snd (make_request throttled_five_times repos_url (page_params 1) (init ''LiteObject'' 0)))
       = [60, 60, 60]
   \<and> calls (snd (make_request throttled_five_times repos_url (page_params 1) (init ''LiteObject'' 0)))
       = 3"
  by (simp add: make_request_def attempts.simps throttled_five_times_def init_def session_get_def max_retries_def
      reply_def retry_after_def sleep_def)

text \<open>
  Claim C3 says that \<^verbatim>\<open>make_request\<close> returns a response or \<^verbatim>\<open>None\<close> whatever the
  headers hold, and lets no exception escape. A \<^verbatim>\<open>Retry-After\<close> header in the HTTP date
  form, or a remaining count that is no integer, makes \<^verbatim>\<open>int\<close> raise \<^verbatim>\<open>ValueError\<close>,
  which neither \<^verbatim>\<open>except\<close> clause catches.
\<close>

theorem make_request_lets_ValueError_escape:
  "fst (make_request retry_after_date repos_url (page_params 1) (init ''LiteObject'' 0)) = Inl ValueError
   \<and> fst (make_request remaining_garbled repos_url (page_params 1) (init ''LiteObject'' 0))
       = Inl ValueError"
  by (simp add: make_request_def attempts.simps retry_after_date_def remaining_garbled_def init_def session_get_def
      max_retries_def reply_def retry_after_def sleep_def py_int_def strip_def py_space_def
      parse_unsigned_def is_digit_def check_rate_limit_def response_truthy_def)

subsection \<open>Network failures and backoff\<close>

lemma attempts_network_error:
  assumes "attempt < max_retries"
    and "env (calls s) url ps = ReadTimeout \<or> env (calls s) url ps = ConnectionError"
    and "0 \<le> retry_delay s"
  shows "attempts env url ps attempt s =
     (let s1 = s\<lparr>calls := Suc (calls s), sent := sent s @ [(url, ps)]\<rparr> in
      if attempt < max_retries - 1 then
        attempts env url ps (Suc attempt)
          (s1\<lparr>clock := clock s + of_int (retry_delay s),
              slept := slept s @ [of_int (retry_delay s)],
              retry_delay := retry_delay s * 2\<rparr>)
      else (Inr None, s1))"
  using assms by (subst attempts.simps) (auto simp: session_get_def sleep_def Let_def)

lemma attempts_three_failures:
  assumes "\<forall>k<3. env (calls s + k) url ps = ReadTimeout \<or> env (calls s + k) url ps = ConnectionError"
    and "0 \<le> retry_delay s"
  shows "attempts env url ps 0 s =
     (Inr None,
      s\<lparr>retry_delay := 4 * retry_delay s,
         clock := clock s + 3 * of_int (retry_delay s),
         calls := calls s + 3,
         slept := slept s @ [of_int (retry_delay s), 2 * of_int (retry_delay s)],
         sent := sent s @ [(url, ps), (url, ps), (url, ps)]\<rparr>)"
proof -
  have e0: "env (calls s) url ps = ReadTimeout \<or> env (calls s) url ps = ConnectionError"
    using assms(1)[rule_format, of 0] by simp
  have e1: "env (Suc (calls s)) url ps = ReadTimeout \<or> env (Suc (calls s)) url ps = ConnectionError"
    using assms(1)[rule_format, of 1] by simp
  have e2: "env (Suc (Suc (calls s))) url ps = ReadTimeout
            \<or> env (Suc (Suc (calls s))) url ps = ConnectionError"
    using assms(1)[rule_format, of 2] by simp
  show ?thesis
    apply (subst attempts_network_error)
       apply (simp_all add: max_retries_def e0 assms(2) Let_def)
    apply (subst attempts_network_error)
       apply (simp_all add: max_retries_def e1 assms(2) Let_def)
    apply (subst attempts_network_error)
       apply (simp_all add: max_retries_def e2 assms(2) Let_def)
    done
qed

text \<open>
  Claim C4 says that consecutive network failures are backed off by 2s, 4s and 8s, that
  the third failure gives \<^verbatim>\<open>None\<close> and that no fourth attempt is made. The last failed
  attempt is not followed by a sleep (\<^verbatim>\<open>if attempt < self.max_retries - 1\<close>), so a fresh
  fetcher sleeps 2s and 4s only.
\<close>

theorem three_failures_sleep_twice:
  "slept (snd (make_request always_down repos_url (page_params 1) (init ''LiteObject'' 0))) = [2, 4]
   \<and> slept (snd (make_request always_down repos_url (page_params 1) (init ''LiteObject'' 0)))
       \<noteq> [2, 4, 8]
   \<and> fst (make_request always_down repos_url (page_params 1) (init ''LiteObject'' 0)) = Inr None"
  by (simp add: make_request_def attempts.simps always_down_def init_def session_get_def
      max_retries_def sleep_def)

text \<open>
  Claim C4 as amended: when the three attempts of a call all fail at network level, and \<open>d\<close>
  is the backoff delay the fetcher holds at that time (2 when fresh), the transport sleeps
  \<open>d\<close> and \<open>2 * d\<close> between the attempts, sends exactly three requests, returns
  \<^verbatim>\<open>None\<close> with no further sleep, and leaves the delay at \<open>4 * d\<close>.
\<close>

theorem network_failures_backoff:
  assumes "\<forall>k<3. env (calls s + k) url ps = ReadTimeout \<or> env (calls s + k) url ps = ConnectionError"
    and "0 \<le> retry_delay s"
  shows "make_request env url ps s =
     (Inr None,
      s\<lparr>retry_delay := 4 * retry_delay s,
         clock := clock s + 3 * of_int (retry_delay s),
         calls := calls s + 3,
         slept := slept s @ [of_int (retry_delay s), 2 * of_int (retry_delay s)],
         sent := sent s @ [(url, ps), (url, ps), (url, ps)]\<rparr>)"
  unfolding make_request_def
  using attempts_three_failures[where env = env and s = s and url = url and ps = ps, OF assms] .

theorem network_failures_backoff_witness:
  "make_request always_down repos_url (page_params 1) (init ''LiteObject'' 0) =
     (Inr None,
      \<lparr>username = ''LiteObject'', retry_delay = 8, clock = 6, calls = 3, slept = [2, 4],
        sent = [(repos_url, page_params 1), (repos_url, page_params 1), (repos_url, page_params 1)]\<rparr>)"
proof -
  have down: "\<forall>k<3. always_down (calls (init ''LiteObject'' 0) + k) repos_url (page_params 1) = ReadTimeout
                \<or> always_down (calls (init ''LiteObject'' 0) + k) repos_url (page_params 1) = ConnectionError"
    by (simp add: always_down_def)
  have delay: "0 \<le> retry_delay (init ''LiteObject'' 0)"
    by (simp add: init_def)
  show ?thesis
    using network_failures_backoff[where env = always_down, OF down delay] by (simp add: init_def)
qed

subsection \<open>Resetting the backoff delay\<close>

lemma attempts_success_resets:
  "attempts env url ps attempt s = (Inr (Some r), s') \<Longrightarrow> retry_delay s' = 2"
proof (induction "max_retries - attempt" arbitrary: attempt s)
  case 0
  then show ?case by (subst (asm) attempts.simps) simp
next
  case (Suc n)
  have step: "attempts env url ps (Suc attempt) t = (Inr (Some r), s') \<Longrightarrow> retry_delay s' = 2" for t
    using Suc.hyps(1)[of "Suc attempt" t] Suc.hyps(2) by simp
  from Suc.prems show ?case
    by (subst (asm) attempts.simps)
       (auto split: if_splits prod.splits outcome.splits sum.splits dest: step)
qed

text \<open>
  Claim C8 says that the delay is reset to 2 after a success, so that of two consecutive
  calls the second never inherits the inflated delay of the first. A call that ends in
  \<^verbatim>\<open>None\<close> after network failures does not reset it: after three failures the delay is
  8, and the next call, failing once before it succeeds, sleeps 8s.
\<close>

theorem failed_call_leaves_delay_inflated:
  "fst (make_request down_four_times repos_url (page_params 1) (init ''LiteObject'' 0)) = Inr None
   \<and> retry_delay (snd (make_request down_four_times repos_url (page_params 1) (init ''LiteObject'' 0)))
       = 8
   \<and> slept (snd (make_request down_four_times repos_url (page_params 1)
              (snd (make_request down_four_times repos_url (page_params 1) (init ''LiteObject'' 0)))))
       = [2, 4, 8]"
  by (simp add: make_request_def attempts.simps down_four_times_def init_def session_get_def
      max_retries_def sleep_def reply_def check_rate_limit_def response_truthy_def)

text \<open>
  Claim C8 as amended: whenever \<^verbatim>\<open>make_request\<close> returns a response, the delay is 2
  afterwards, whatever it was during the call; so a call that follows a call that returned
  a response starts its backoff at 2s.
\<close>

theorem returned_response_resets_delay:
  "make_request env url ps s = (Inr (Some r), s') \<Longrightarrow> retry_delay s' = 2"
  unfolding make_request_def by (rule attempts_success_resets)

theorem returned_response_resets_delay_witness:
  "fst (make_request down_once repos_url (page_params 1) (init ''LiteObject'' 0))
     = Inr (Some (reply 200 [] (JArr [])))
   \<and> slept (snd (make_request down_once repos_url (page_params 1) (init ''LiteObject'' 0))) = [2]
   \<and> retry_delay (snd (make_request down_once repos_url (page_params 1) (init ''LiteObject'' 0))) = 2"
proof -
  let ?m = "make_request down_once repos_url (page_params 1) (init ''LiteObject'' 0)"
  have res: "fst ?m = Inr (Some (reply 200 [] (JArr [])))" and sl: "slept (snd ?m) = [2]"
    by (simp_all add: make_request_def attempts.simps down_once_def init_def session_get_def
        max_retries_def sleep_def reply_def check_rate_limit_def response_truthy_def)
  have "?m = (Inr (Some (reply 200 [] (JArr []))), snd ?m)"
    using res by (simp add: prod_eq_iff)
  from returned_response_resets_delay[OF this] res sl show ?thesis by simp
qed

subsection \<open>Proactive throttling\<close>





section \<open>Collector\<close>

subsection \<open>The record does not depend on the state of the transport\<close>

lemma agree_pair [simp]: "agree u env' env (x, s) (y, t) = (y = x \<and> replays u env' t env s)"
  by (simp add: agree_def)

lemma replays_sleep:
  "replays u env' t env s \<Longrightarrow> 0 \<le> d \<Longrightarrow> 0 \<le> d' \<Longrightarrow> agree u env' env (sleep d s) (sleep d' t)"
  by (simp add: sleep_def replays_def)

lemma replays_sleep_same:
  "replays u env' t env s \<Longrightarrow> agree u env' env (sleep d s) (sleep d t)"
  by (simp add: sleep_def replays_def)

lemma replays_session:
  assumes "replays u env' t env s"
  shows "fst (session_get env' url ps t) = fst (session_get env url ps s)"
    and "replays u env' (snd (session_get env' url ps t)) env (snd (session_get env url ps s))"
proof -
  from assms have "env' (calls t + 0) = env (calls s + 0)" unfolding replays_def by blast
  then show "fst (session_get env' url ps t) = fst (session_get env url ps s)"
    by (simp add: session_get_def)
  from assms have "\<And>i. env' (calls t + Suc i) = env (calls s + Suc i)" unfolding replays_def by blast
  with assms show "replays u env' (snd (session_get env' url ps t)) env (snd (session_get env url ps s))"
    by (simp add: session_get_def replays_def)
qed

lemma replays_check:
  "replays u env' t env s \<Longrightarrow> agree u env' env (check_rate_limit r s) (check_rate_limit r t)"
  by (auto simp: check_rate_limit_def Let_def intro!: replays_sleep replays_sleep_same split: option.splits)

lemma replays_delay:
  "replays u env' t env s \<Longrightarrow> 0 \<le> a \<Longrightarrow> 0 \<le> b \<Longrightarrow> replays u env' (t\<lparr>retry_delay := b\<rparr>) env (s\<lparr>retry_delay := a\<rparr>)"
  by (simp add: replays_def)

lemma and_then_case:
  "(case m of (Inl e, s) \<Rightarrow> (Inl e, s) | (Inr v, s) \<Rightarrow> f v s) = and_then m f"
  by (simp add: and_then_def)

lemma agree_and_then:
  assumes "agree u env' env m m'"
    and "\<And>v s t. replays u env' t env s \<Longrightarrow> agree u env' env (f v s) (f' v t)"
  shows "agree u env' env (and_then m f) (and_then m' f')"
proof (cases m)
  case (Pair x s)
  obtain y t where m': "m' = (y, t)" by (cases m')
  with Pair assms(1) have xy: "y = x" and R: "replays u env' t env s" by simp_all
  show ?thesis
  proof (cases x)
    case (Inl e)
    with Pair m' xy R show ?thesis by (simp add: and_then_def)
  next
    case (Inr v)
    with Pair m' xy assms(2)[OF R, of v] show ?thesis by (simp add: and_then_def)
  qed
qed

lemma replays_double:
  "replays u env' t env s \<Longrightarrow>
   replays u env' (t\<lparr>retry_delay := retry_delay t * 2\<rparr>) env (s\<lparr>retry_delay := retry_delay s * 2\<rparr>)"
  by (simp add: replays_def)

lemma replays_reset:
  "replays u env' t env s \<Longrightarrow>
   replays u env' (t\<lparr>retry_delay := 2\<rparr>) env (s\<lparr>retry_delay := 2\<rparr>)"
  by (simp add: replays_def)

lemma attempts_step:
  "attempts env url ps a s =
     (if \<not> a < max_retries then (Inr None, s)
      else
        (case session_get env url ps s of
           (Returned r, s1) \<Rightarrow>
             if status_code r = 429 then
               (case retry_after r of
                  Inl e \<Rightarrow> (Inl e, s1)
                | Inr d \<Rightarrow> and_then (sleep (of_int d) s1) (\<lambda>_ s2. attempts env url ps (Suc a) s2))
             else and_then (check_rate_limit r s1) (\<lambda>_ s2. (Inr (Some r), s2\<lparr>retry_delay := 2\<rparr>))
         | (OtherRequestException, s1) \<Rightarrow> (Inr None, s1)
         | (_, s1) \<Rightarrow>
             if a < max_retries - 1 then
               and_then (sleep (of_int (retry_delay s1)) s1)
                 (\<lambda>_ s2. attempts env url ps (Suc a) (s2\<lparr>retry_delay := retry_delay s2 * 2\<rparr>))
             else (Inr None, s1)))"
  by (subst attempts.simps) (simp add: and_then_def split: prod.splits outcome.splits sum.splits)

lemma attempts_agree:
  "replays u env' t env s \<Longrightarrow> agree u env' env (attempts env url ps a s) (attempts env' url ps a t)"
proof (induction "max_retries - a" arbitrary: a s t)
  case 0
  then show ?case by (simp add: attempts.simps)
next
  case (Suc n)
  obtain out s1 where S: "session_get env url ps s = (out, s1)" by (cases "session_get env url ps s")
  obtain out' t1 where T: "session_get env' url ps t = (out', t1)" by (cases "session_get env' url ps t")
  from replays_session[OF Suc.prems, of url ps] S T
  have out: "out' = out" and R1: "replays u env' t1 env s1" by simp_all
  have IH: "replays u env' t2 env s2 \<Longrightarrow>
      agree u env' env (attempts env url ps (Suc a) s2) (attempts env' url ps (Suc a) t2)" for s2 t2
    using Suc.hyps(1)[of "Suc a" t2 s2] Suc.hyps(2) by simp
  have lt: "a < max_retries" using Suc.hyps(2) by simp
  from R1 have d: "0 \<le> retry_delay s1" "0 \<le> retry_delay t1" by (simp_all add: replays_def)
  have net: "agree u env' env
      (and_then (sleep (of_int (retry_delay s1)) s1)
         (\<lambda>_ s2. attempts env url ps (Suc a) (s2\<lparr>retry_delay := retry_delay s2 * 2\<rparr>)))
      (and_then (sleep (of_int (retry_delay t1)) t1)
         (\<lambda>_ t2. attempts env' url ps (Suc a) (t2\<lparr>retry_delay := retry_delay t2 * 2\<rparr>)))"
    by (rule agree_and_then) (use R1 d in \<open>auto intro!: replays_sleep IH replays_double\<close>)
  show ?case
  proof (cases out)
    case (Returned r)
    show ?thesis
    proof (cases "status_code r = 429")
      case True
      show ?thesis
      proof (cases "retry_after r")
        case (Inl e)
        with True Returned S T out R1 lt show ?thesis
          by (simp add: attempts_step[of _ _ _ a])
      next
        case (Inr w)
        have "agree u env' env
           (and_then (sleep (of_int w) s1) (\<lambda>_ s2. attempts env url ps (Suc a) s2))
           (and_then (sleep (of_int w) t1) (\<lambda>_ t2. attempts env' url ps (Suc a) t2))"
          by (rule agree_and_then) (use R1 in \<open>auto intro!: replays_sleep_same IH\<close>)
        with Inr True Returned S T out lt show ?thesis
          by (simp add: attempts_step[of _ _ _ a])
      qed
    next
      case False
      have "agree u env' env
           (and_then (check_rate_limit r s1) (\<lambda>_ s2. (Inr (Some r), s2\<lparr>retry_delay := 2\<rparr>)))
           (and_then (check_rate_limit r t1) (\<lambda>_ t2. (Inr (Some r), t2\<lparr>retry_delay := 2\<rparr>)))"
        by (rule agree_and_then) (use R1 in \<open>auto intro!: replays_check replays_reset\<close>)
      with False Returned S T out lt show ?thesis
        by (simp add: attempts_step[of _ _ _ a])
    qed
  next
    case ReadTimeout
    with S T out R1 lt net show ?thesis
      by (simp add: attempts_step[of _ _ _ a])
  next
    case ConnectionError
    with S T out R1 lt net show ?thesis
      by (simp add: attempts_step[of _ _ _ a])
  next
    case OtherRequestException
    with S T out R1 lt show ?thesis
      by (simp add: attempts_step[of _ _ _ a])
  qed
qed

lemma make_request_agree:
  "replays u env' t env s \<Longrightarrow> agree u env' env (make_request env url ps s) (make_request env' url ps t)"
  unfolding make_request_def by (rule attempts_agree)


lemma repo_url_agree: "replays u env' t env s \<Longrightarrow> repo_url t name x = repo_url s name x"
  by (simp add: repo_url_def replays_def)

lemma get_repo_views_agree:
  assumes "replays u env' t env s"
  shows "agree u env' env (get_repo_views env name s) (get_repo_views env' name t)"
  using make_request_agree[OF assms, of "repo_url s name ''views''" None]
  by (auto simp: get_repo_views_def repo_url_agree[OF assms] agree_def
      split: prod.splits sum.splits option.splits)

lemma get_repo_clones_agree:
  assumes "replays u env' t env s"
  shows "agree u env' env (get_repo_clones env name s) (get_repo_clones env' name t)"
  using make_request_agree[OF assms, of "repo_url s name ''clones''" None]
  by (auto simp: get_repo_clones_def repo_url_agree[OF assms] agree_def
      split: prod.splits sum.splits option.splits)

lemma get_repo_referrers_agree:
  assumes "replays u env' t env s"
  shows "agree u env' env (get_repo_referrers env name s) (get_repo_referrers env' name t)"
  using make_request_agree[OF assms, of "repo_url s name ''popular/referrers''" None]
  by (auto simp: get_repo_referrers_def repo_url_agree[OF assms] agree_def
      split: prod.splits sum.splits option.splits)

lemma get_popular_paths_agree:
  assumes "replays u env' t env s"
  shows "agree u env' env (get_popular_paths env name s) (get_popular_paths env' name t)"
  using make_request_agree[OF assms, of "repo_url s name ''popular/paths''" None]
  by (auto simp: get_popular_paths_def repo_url_agree[OF assms] agree_def
      split: prod.splits sum.splits option.splits)

lemma get_repo_traffic_data_agree:
  assumes "replays u env' t env s"
  shows "agree u env' env (get_repo_traffic_data env name s) (get_repo_traffic_data env' name t)"
  unfolding get_repo_traffic_data_def
  by (intro agree_and_then get_repo_views_agree get_repo_clones_agree get_repo_referrers_agree
      get_popular_paths_agree replays_sleep_same assms | simp)+

text \<open>
  Claim C9: collecting a repository a second time, against a server that repeats the
  outcomes it gave the first time, produces the same result as the first collection
  (the same record, or the same exception): the backoff delay, the clock and the logs that
  the first run left behind have no influence on it.
\<close>

theorem collect_again_same_record:
  assumes "0 \<le> retry_delay s"
    and "get_repo_traffic_data env repo_name s = (first, s1)"
    and "\<forall>i. env' (calls s1 + i) = env (calls s + i)"
  shows "fst (get_repo_traffic_data env' repo_name s1) = first"
proof -
  from assms(1) have "replays (username s) env s env s" by (simp add: replays_def)
  from get_repo_traffic_data_agree[OF this, of repo_name] assms(2)
  have "replays (username s) env s1 env s1" by (simp add: agree_def)
  with assms(1,3) have "replays (username s) env' s1 env s" by (simp add: replays_def)
  from get_repo_traffic_data_agree[OF this, of repo_name] assms(2)
  show ?thesis by (simp add: agree_def)
qed

theorem collect_again_same_record_witness:
  "fst (get_repo_traffic_data flaky ''a'' (init ''LiteObject'' 0)) =
     Inr [(''views'', JObj [(''count'', JNum 10), (''uniques'', JNum 4)]), (''clones'', JNull),
          (''referrers'', JArr []), (''popular_paths'', JNull)]
   \<and> slept (snd (get_repo_traffic_data flaky ''a'' (init ''LiteObject'' 0))) = [2, 1 / 2, 1 / 2, 1 / 2]
   \<and> fst (get_repo_traffic_data flaky ''a'' (snd (get_repo_traffic_data flaky ''a'' (init ''LiteObject'' 0)))) =
     Inr [(''views'', JObj [(''count'', JNum 10), (''uniques'', JNum 4)]), (''clones'', JNull),
          (''referrers'', JArr []), (''popular_paths'', JNull)]"
proof -
  let ?s = "init ''LiteObject'' 0"
  let ?m = "get_repo_traffic_data flaky ''a'' ?s"
  have ev: "fst ?m = Inr [(''views'', JObj [(''count'', JNum 10), (''uniques'', JNum 4)]),
              (''clones'', JNull), (''referrers'', JArr []), (''popular_paths'', JNull)]"
    and sl: "slept (snd ?m) = [2, 1 / 2, 1 / 2, 1 / 2]"
    and cs: "calls (snd ?m) = 5"
    by (simp_all add: get_repo_traffic_data_def get_repo_views_def get_repo_clones_def
        get_repo_referrers_def get_popular_paths_def and_then_def make_request_def attempts.simps
        flaky_def init_def session_get_def max_retries_def reply_def sleep_def repo_url_def
        base_url_def check_rate_limit_def response_truthy_def response_json_def api_call_delay_def)
  have 1: "0 \<le> retry_delay ?s" by (simp add: init_def)
  have 2: "?m = (fst ?m, snd ?m)" by simp
  have 3: "\<forall>i. flaky (calls (snd ?m) + i) = flaky (calls ?s + i)"
    unfolding cs by (simp add: init_def flaky_def fun_eq_iff)
  from collect_again_same_record[where env' = flaky, OF 1 2 3] ev sl show ?thesis by simp
qed

text \<open>
  Claim C2 says that a failed clones fetch leaves \<open>clones\<close> absent and the collection goes on
  to referrers and popular paths. When the transport returns \<^verbatim>\<open>None\<close> for the clones
  endpoint, \<^verbatim>\<open>get_repo_clones\<close> reads \<^verbatim>\<open>response.status_code\<close> of \<^verbatim>\<open>None\<close>:
  \<^verbatim>\<open>get_repo_traffic_data\<close> raises \<^verbatim>\<open>AttributeError\<close>, returns no record, and has sent
  no request for the referrers or the popular paths.
\<close>

theorem clones_failure_raises:
  "fst (get_repo_traffic_data clones_unreachable ''a'' (init ''LiteObject'' 0)) = Inl AttributeError
   \<and> map fst (sent (snd (get_repo_traffic_data clones_unreachable ''a'' (init ''LiteObject'' 0)))) =
       [''https://api.github.com/repos/LiteObject/a/traffic/views'',
        ''https://api.github.com/repos/LiteObject/a/traffic/clones'',
        ''https://api.github.com/repos/LiteObject/a/traffic/clones'',
        ''https://api.github.com/repos/LiteObject/a/traffic/clones'']"
  by (simp add: get_repo_traffic_data_def get_repo_views_def get_repo_clones_def and_then_def
      make_request_def attempts.simps clones_unreachable_def init_def session_get_def max_retries_def
      reply_def sleep_def repo_url_def base_url_def check_rate_limit_def response_truthy_def
      response_json_def api_call_delay_def)

section \<open>Paginator\<close>

lemma attempts_429_no_header:
  assumes "\<And>n. env n url ps = Returned r" and "status_code r = 429" and "headers r = []"
  shows "attempts env url ps 0 s =
     (Inr None, s\<lparr>clock := clock s + 180, calls := calls s + 3, slept := slept s @ [60, 60, 60],
                  sent := sent s @ replicate 3 (url, ps)\<rparr>)"
  using assms
  by (simp add: attempts.simps max_retries_def session_get_def retry_after_def sleep_def numeral_3_eq_3)

lemma attempts_other_exception:
  assumes "env (calls s) url ps = OtherRequestException"
  shows "attempts env url ps 0 s =
     (Inr None, s\<lparr>calls := Suc (calls s), sent := sent s @ [(url, ps)]\<rparr>)"
  using assms by (simp add: attempts.simps max_retries_def session_get_def)

lemma attempts_plain_response:
  assumes "env (calls s) url ps = Returned r" and "status_code r \<noteq> 429" and "headers r = []"
  shows "attempts env url ps 0 s =
     (Inr (Some r), s\<lparr>calls := Suc (calls s), sent := sent s @ [(url, ps)], retry_delay := 2\<rparr>)"
  using assms by (simp add: attempts.simps max_retries_def session_get_def check_rate_limit_def)

text \<open>One request for a page that ends the enumeration.\<close>

lemma make_request_stops:
  assumes "\<And>n. env n url ps = final" and "stops final" and "0 \<le> retry_delay s"
  shows "\<exists>res s' m. make_request env url ps s = (Inr res, s') \<and> 1 \<le> m
           \<and> sent s' = sent s @ replicate m (url, ps)
           \<and> (case res of None \<Rightarrow> True
               | Some r \<Rightarrow> status_code r \<noteq> 200 \<or> (\<exists>j. body r = Some j \<and> \<not> truthy j))"
proof (cases final)
  case (Returned r)
  with assms(2) have h: "headers r = []" by (simp add: stops_def)
  show ?thesis
  proof (cases "status_code r = 429")
    case True
    from attempts_429_no_header[of env url ps r s] assms(1) Returned True h
    show ?thesis by (auto simp: make_request_def intro!: exI[of _ 3])
  next
    case False
    from attempts_plain_response[of env s url ps r] assms(1) Returned False h
    have "make_request env url ps s =
        (Inr (Some r), s\<lparr>calls := Suc (calls s), sent := sent s @ [(url, ps)], retry_delay := 2\<rparr>)"
      by (simp add: make_request_def)
    moreover from assms(2) Returned
    have "status_code r \<noteq> 200 \<or> (\<exists>j. body r = Some j \<and> \<not> truthy j)"
      by (auto simp: stops_def split: if_splits option.splits)
    ultimately show ?thesis by (auto intro!: exI[of _ 1])
  qed
next
  case ReadTimeout
  with assms(1) have "\<forall>k<3. env (calls s + k) url ps = ReadTimeout \<or> env (calls s + k) url ps = ConnectionError"
    by simp
  from attempts_three_failures[where env = env and s = s and url = url and ps = ps, OF this assms(3)] show ?thesis
    by (auto simp: make_request_def intro!: exI[of _ 3] simp: numeral_3_eq_3)
next
  case ConnectionError
  with assms(1) have "\<forall>k<3. env (calls s + k) url ps = ReadTimeout \<or> env (calls s + k) url ps = ConnectionError"
    by simp
  from attempts_three_failures[where env = env and s = s and url = url and ps = ps, OF this assms(3)] show ?thesis
    by (auto simp: make_request_def intro!: exI[of _ 3] simp: numeral_3_eq_3)
next
  case OtherRequestException
  from attempts_other_exception[of env s url ps] assms(1) OtherRequestException
  show ?thesis by (auto simp: make_request_def intro!: exI[of _ 1])
qed

lemma pages_stops:
  assumes "\<And>n. env n repos_url (page_params k) = final" and "stops final" and "0 \<le> retry_delay s"
  shows "\<exists>s' m. pages env k acc s = Some (Inr acc, s') \<and> 1 \<le> m
           \<and> sent s' = sent s @ replicate m (repos_url, page_params k)"
proof -
  from make_request_stops[where env = env and url = repos_url and ps = "page_params k" and s = s, OF assms] obtain res s' m where
    mr: "make_request env repos_url (page_params k) s = (Inr res, s')" and m: "1 \<le> m"
    and sent: "sent s' = sent s @ replicate m (repos_url, page_params k)"
    and res: "case res of None \<Rightarrow> True
               | Some r \<Rightarrow> status_code r \<noteq> 200 \<or> (\<exists>j. body r = Some j \<and> \<not> truthy j)"
    by blast
  from mr res have "pages env k acc s = Some (Inr acc, s')"
    by (subst pages.simps) (auto simp: response_json_def split: option.splits)
  with m sent show ?thesis by blast
qed

lemma pages_continues:
  assumes "env (calls s) repos_url (page_params k) = Returned (reply 200 [] (JArr p))" and "p \<noteq> []"
  shows "pages env k acc s =
     pages env (k + 1) (acc @ p)
       (s\<lparr>calls := Suc (calls s), sent := sent s @ [(repos_url, page_params k)], retry_delay := 2,
          clock := clock s + 1 / 2, slept := slept s @ [1 / 2]\<rparr>)"
  using assms attempts_plain_response[of env s repos_url "page_params k" "reply 200 [] (JArr p)"]
  by (subst pages.simps) (simp add: make_request_def reply_def response_json_def sleep_def)


lemma paged_inside:
  "j < length pgs \<Longrightarrow>
   paged pgs final n repos_url (page_params (int j + 1)) = Returned (reply 200 [] (JArr (pgs ! j)))"
  by (simp add: paged_def page_of_def page_params_def)

lemma paged_beyond:
  "paged pgs final n repos_url (page_params (int (length pgs) + 1)) = final"
  by (simp add: paged_def page_of_def page_params_def)

lemma pages_paged:
  assumes ne: "\<forall>p\<in>set pgs. p \<noteq> []" and st: "stops final"
  shows "j \<le> length pgs \<Longrightarrow> 0 \<le> retry_delay s \<Longrightarrow>
     \<exists>s' m. pages (paged pgs final) (int j + 1) acc s = Some (Inr (acc @ concat (drop j pgs)), s')
       \<and> 1 \<le> m
       \<and> sent s' = sent s @ map (\<lambda>k. (repos_url, page_params (int k))) [Suc j..<Suc (length pgs)]
                     @ replicate m (repos_url, page_params (int (length pgs) + 1))"
proof (induction "length pgs - j" arbitrary: j acc s)
  case 0
  then have j: "j = length pgs" by simp
  from pages_stops[where env = "paged pgs final" and k = "int (length pgs) + 1" and final = final
      and s = s and acc = acc, OF paged_beyond st "0.prems"(2)]
  show ?case by (simp add: j)
next
  case (Suc d)
  then have lt: "j < length pgs" by simp
  with ne have nonempty: "pgs ! j \<noteq> []" by simp
  let ?s1 = "s\<lparr>calls := Suc (calls s), sent := sent s @ [(repos_url, page_params (int j + 1))],
               retry_delay := 2, clock := clock s + 1 / 2, slept := slept s @ [1 / 2]\<rparr>"
  have step: "pages (paged pgs final) (int j + 1) acc s =
      pages (paged pgs final) (int (Suc j) + 1) (acc @ pgs ! j) ?s1"
    using pages_continues[where env = "paged pgs final" and s = s and k = "int j + 1"
        and p = "pgs ! j" and acc = acc, OF paged_inside[OF lt] nonempty]
    by (simp add: add.commute)
  from Suc.hyps(2) lt have d: "d = length pgs - Suc j" by simp
  from Suc.hyps(1)[OF d, of ?s1 "acc @ pgs ! j"] lt
  obtain s' m where
    r: "pages (paged pgs final) (int (Suc j) + 1) (acc @ pgs ! j) ?s1
          = Some (Inr ((acc @ pgs ! j) @ concat (drop (Suc j) pgs)), s')"
    and m: "1 \<le> m"
    and sent: "sent s' = sent ?s1 @ map (\<lambda>k. (repos_url, page_params (int k))) [Suc (Suc j)..<Suc (length pgs)]
                     @ replicate m (repos_url, page_params (int (length pgs) + 1))"
    by auto
  have c: "(acc @ pgs ! j) @ concat (drop (Suc j) pgs) = acc @ concat (drop j pgs)"
    using Cons_nth_drop_Suc[OF lt, symmetric] by simp
  have u: "[Suc j..<Suc (length pgs)] = Suc j # [Suc (Suc j)..<Suc (length pgs)]"
    using lt by (simp add: upt_conv_Cons)
  from step r c m sent u show ?case
    by (auto simp: add.commute intro!: exI[of _ m])
qed

text \<open>
  Claim C6: \<^verbatim>\<open>get_user_repos\<close> asks for page 1, 2, 3, ... with \<open>per_page\<close> 100, goes on
  as long as the pages are not empty, stops at the first page that comes back empty, fails
  or has a status other than 200, and returns the items of the pages before it, in order.
  After \<open>n\<close> pages that are not empty and one outcome that stops, the result is the
  concatenation of the \<open>n\<close> pages, each of them was requested once, page \<open>n + 1\<close> was
  requested once or (with retries) three times, and no page beyond it was requested.
\<close>

theorem get_user_repos_pages:
  assumes "\<forall>p\<in>set pgs. p \<noteq> []" and "stops final" and "0 \<le> retry_delay s"
  shows "\<exists>s' m. get_user_repos (paged pgs final) s = Some (Inr (concat pgs), s')
       \<and> 1 \<le> m
       \<and> sent s' = sent s @ map (\<lambda>k. (repos_url, page_params (int k))) [1..<Suc (length pgs)]
                     @ replicate m (repos_url, page_params (int (length pgs) + 1))"
  using pages_paged[OF assms(1,2), of 0 s "[]"] assms(3)
  by (simp add: get_user_repos_def)

theorem get_user_repos_pages_witness:
  "get_user_repos (paged three_pages (Returned (reply 200 [] (JArr [])))) (init ''LiteObject'' 0) =
     Some (Inr [JObj [(''name'', JStr ''a'')], JObj [(''name'', JStr ''b'')], JObj [(''name'', JStr ''c'')],
                JObj [(''name'', JStr ''d'')], JObj [(''name'', JStr ''e'')]],
           \<lparr>username = ''LiteObject'', retry_delay = 2, clock = 3 / 2, calls = 4,
             slept = [1 / 2, 1 / 2, 1 / 2],
             sent = [(repos_url, page_params 1), (repos_url, page_params 2),
                     (repos_url, page_params 3), (repos_url, page_params 4)]\<rparr>)"
proof -
  have 1: "\<forall>p\<in>set three_pages. p \<noteq> []" by (simp add: three_pages_def)
  have 2: "stops (Returned (reply 200 [] (JArr [])))" by (simp add: stops_def reply_def)
  have 3: "0 \<le> retry_delay (init ''LiteObject'' 0)" by (simp add: init_def)
  from get_user_repos_pages[OF 1 2 3] show ?thesis
    by (simp add: get_user_repos_def pages.simps make_request_def attempts.simps max_retries_def
        session_get_def paged_def page_of_def page_params_def three_pages_def reply_def init_def
        check_rate_limit_def response_truthy_def response_json_def sleep_def)
qed

section \<open>Aggregator\<close>








section \<open>Summary\<close>

lemma summary_step_typed:
  assumes "well_typed_metric (record_get data ''views'')" and "well_typed_metric (record_get data ''clones'')"
  shows "summary_step data (tv, tu, tc) =
     Inr (tv + (if metric_present data ''views'' then metric_number data ''views'' ''count'' else 0),
          tu + (if metric_present data ''views'' then metric_number data ''views'' ''uniques'' else 0),
          tc + (if metric_present data ''clones'' then metric_number data ''clones'' ''count'' else 0))"
  using assms
  by (auto simp: summary_step_def well_typed_metric_def number_or_missing_def metric_present_def
      metric_number_def then_value_def get_or_zero_def py_add_def Let_def
      split: json.splits option.splits)

lemma summary_loop_typed:
  "well_typed_report rep \<Longrightarrow>
   summary_loop rep (tv, tu, tc) =
     Inr (tv + total_over_present rep ''views'' ''count'',
          tu + total_over_present rep ''views'' ''uniques'',
          tc + total_over_present rep ''clones'' ''count'')"
proof (induction rep arbitrary: tv tu tc)
  case Nil
  then show ?case by (simp add: total_over_present_def)
next
  case (Cons entry rep)
  obtain name data where e: "entry = (name, data)" by (cases entry)
  from Cons.prems e have wt: "well_typed_metric (record_get data ''views'')"
    "well_typed_metric (record_get data ''clones'')" and rest: "well_typed_report rep"
    by (simp_all add: well_typed_report_def)
  show ?case
    by (simp add: e summary_step_typed[OF wt] Cons.IH[OF rest] total_over_present_def)
qed

text \<open>
  Claim C7: \<^verbatim>\<open>print_summary\<close> adds up \<open>count\<close> and \<open>uniques\<close> of the views, and \<open>count\<close> of
  the clones, over exactly the records in which the metric is present; an absent metric
  adds nothing to the totals. For the report of the scenario the totals are 10 views and
  7 clones.
\<close>

theorem print_summary_totals:
  "well_typed_report rep \<Longrightarrow>
   print_summary rep =
     Inr (total_over_present rep ''views'' ''count'',
          total_over_present rep ''views'' ''uniques'',
          total_over_present rep ''clones'' ''count'')"
  by (simp add: print_summary_def summary_loop_typed)

theorem print_summary_totals_witness: "print_summary report_ab = Inr (10, 3, 7)"
proof -
  have "well_typed_report report_ab"
    by (simp add: well_typed_report_def report_ab_def well_typed_metric_def record_get_def number_or_missing_def)
  from print_summary_totals[OF this] show ?thesis
    by (simp add: total_over_present_def report_ab_def metric_present_def metric_number_def record_get_def)
qed

end
